theory Spec2Isabelle
  imports Complex_Main
begin

section \<open>Command line: \<open>parse_args\<close>\<close>

text \<open>
  The script \<^verbatim>\<open>phone_detect_play.py\<close> reads its configuration with \<^verbatim>\<open>argparse\<close>.
  The tokenising of the command line and the conversions \<^verbatim>\<open>int(...)\<close> and
  \<^verbatim>\<open>float(...)\<close> belong to the Python library; here each typed option arrives as one
  of three cases: not given, given with a text the conversion rejects, or given with the
  converted value. Python's unbounded \<^verbatim>\<open>int\<close> is \<^typ>\<open>int\<close>; a finite Python
  \<^verbatim>\<open>float\<close> is read as the \<^typ>\<open>real\<close> it denotes, with exact arithmetic.
\<close>

datatype 'a supplied = Omitted | Malformed | Given 'a

record cli =
  cli_url :: "string option"
  cli_camera :: "int supplied"
  cli_model :: "string option"
  cli_conf :: "real supplied"
  cli_frames :: "int supplied"
  cli_cooldown :: "real supplied"
  cli_open_with :: "string option"
  cli_show :: bool

record args =
  url :: string
  camera :: int
  model :: string
  conf :: real
  frames :: int
  cooldown :: real
  open_with :: "string option"
  show_window :: bool

text \<open>\<^verbatim>\<open>argparse\<close> reports every problem the same way: a usage message and exit status 2.\<close>

datatype error = Usage_error

fun convert :: "'a \<Rightarrow> 'a supplied \<Rightarrow> error + 'a" where
  "convert d Omitted = Inr d"
| "convert d Malformed = Inl Usage_error"
| "convert d (Given v) = Inr v"

text \<open>
  \<^verbatim>\<open>--url\<close> is \<^verbatim>\<open>required=True\<close>; the other options have defaults. No option has
  a \<^verbatim>\<open>choices\<close> list or a range check, and nothing after \<^verbatim>\<open>p.parse_args()\<close>
  inspects the values.
\<close>

definition parse_args :: "cli \<Rightarrow> error + args" where
  "parse_args c =
     (case cli_url c of
        None \<Rightarrow> Inl Usage_error
      | Some u \<Rightarrow>
     (case convert 0 (cli_camera c) of
        Inl e \<Rightarrow> Inl e
      | Inr cam \<Rightarrow>
     (case convert (45 / 100) (cli_conf c) of
        Inl e \<Rightarrow> Inl e
      | Inr cf \<Rightarrow>
     (case convert 6 (cli_frames c) of
        Inl e \<Rightarrow> Inl e
      | Inr fr \<Rightarrow>
     (case convert 10 (cli_cooldown c) of
        Inl e \<Rightarrow> Inl e
      | Inr cd \<Rightarrow>
          Inr \<lparr> url = u, camera = cam,
                model = (case cli_model c of None \<Rightarrow> ''yolov8n.pt'' | Some m \<Rightarrow> m),
                conf = cf, frames = fr, cooldown = cd,
                open_with = cli_open_with c, show_window = cli_show c \<rparr>)))))"

text \<open>The command line \<^verbatim>\<open>--url u --frames n --cooldown k\<close> and the arguments it yields.\<close>

definition cli_with :: "int \<Rightarrow> real \<Rightarrow> cli" where
  "cli_with n k =
     \<lparr> cli_url = Some ''u'', cli_camera = Omitted, cli_model = None, cli_conf = Omitted,
       cli_frames = Given n, cli_cooldown = Given k, cli_open_with = None,
       cli_show = False \<rparr>"

definition args_with :: "int \<Rightarrow> real \<Rightarrow> args" where
  "args_with n k =
     \<lparr> url = ''u'', camera = 0, model = ''yolov8n.pt'', conf = 45 / 100,
       frames = n, cooldown = k, open_with = None, show_window = False \<rparr>"


section \<open>The debounce loop of \<open>main\<close>\<close>

text \<open>
  The three local variables of \<^verbatim>\<open>main\<close> that survive from one frame to the next.
\<close>

record state =
  consecutive_hits :: int
  detected_stable :: bool
  last_trigger_time :: real

text \<open>Lines 72 to 74: the values before the first frame.\<close>

definition init_state :: state where
  "init_state = \<lparr> consecutive_hits = 0, detected_stable = False, last_trigger_time = 0 \<rparr>"

text \<open>
  One pass through the loop body sees two things from outside: whether some detection of
  this frame was a phone (\<^verbatim>\<open>phone_present_this_frame\<close>) and the clock reading
  \<^verbatim>\<open>now = time.time()\<close>. Clock readings and the cooldown are reals; the proofs use
  the order on them and \<open>t - 0 = t\<close>, and no other property of the subtraction.
\<close>

type_synonym tick = "bool \<times> real"

text \<open>
  Lines 110 to 126. The result pairs "the video was opened on this frame" with the
  variables after the frame.
\<close>

fun step :: "args \<Rightarrow> state \<Rightarrow> tick \<Rightarrow> bool \<times> state" where
  "step a s (phone_present_this_frame, now) =
     (let hits = (if phone_present_this_frame then consecutive_hits s + 1
                  else max 0 (consecutive_hits s - 1));
          became_stable = (\<not> detected_stable s \<and> hits \<ge> frames a);
          fire = (became_stable \<and> now - last_trigger_time s \<ge> cooldown a);
          last = (if fire then now else last_trigger_time s);
          stable = (if fire then True else detected_stable s);
          stable' = (if stable \<and> hits = 0 then False else stable)
      in (fire, \<lparr> consecutive_hits = hits, detected_stable = stable',
                  last_trigger_time = last \<rparr>))"

text \<open>
  The \<^verbatim>\<open>while True\<close> loop over the frames the camera delivers until it stops: for each
  frame, whether the video was opened and the variables afterwards.
\<close>

fun run :: "args \<Rightarrow> state \<Rightarrow> tick list \<Rightarrow> (bool \<times> state) list" where
  "run a s [] = []"
| "run a s (tk # tks) = (let r = step a s tk in r # run a (snd r) tks)"

text \<open>The variables when the loop ends.\<close>

fun exec :: "args \<Rightarrow> state \<Rightarrow> tick list \<Rightarrow> state" where
  "exec a s [] = s"
| "exec a s (tk # tks) = exec a (snd (step a s tk)) tks"

definition fired :: "args \<Rightarrow> state \<Rightarrow> tick list \<Rightarrow> bool list" where
  "fired a s tks = map fst (run a s tks)"

definition hits_trace :: "args \<Rightarrow> state \<Rightarrow> tick list \<Rightarrow> int list" where
  "hits_trace a s tks = map (\<lambda>r. consecutive_hits (snd r)) (run a s tks)"

definition stable_trace :: "args \<Rightarrow> state \<Rightarrow> tick list \<Rightarrow> bool list" where
  "stable_trace a s tks = map (\<lambda>r. detected_stable (snd r)) (run a s tks)"

text \<open>The cooldown test of line 118 for a clock reading, against a given last trigger.\<close>

definition ready :: "args \<Rightarrow> real \<Rightarrow> tick \<Rightarrow> bool" where
  "ready a l tk = (snd tk - l \<ge> cooldown a)"


section \<open>One frame\<close>

lemma step_hits:
  "consecutive_hits (snd (step a s (p, t))) =
     (if p then consecutive_hits s + 1 else max 0 (consecutive_hits s - 1))"
  by (simp add: Let_def)

lemma step_fire:
  "fst (step a s (p, t)) =
     (\<not> detected_stable s \<and> frames a \<le> consecutive_hits (snd (step a s (p, t))) \<and>
      cooldown a \<le> t - last_trigger_time s)"
  by (simp add: Let_def)

lemma step_last:
  "last_trigger_time (snd (step a s (p, t))) =
     (if fst (step a s (p, t)) then t else last_trigger_time s)"
  by (simp add: Let_def)

lemma step_stable:
  "detected_stable (snd (step a s (p, t))) =
     ((fst (step a s (p, t)) \<or> detected_stable s) \<and>
      consecutive_hits (snd (step a s (p, t))) \<noteq> 0)"
  by (auto simp add: Let_def)

lemma step_hits_nonneg:
  "0 \<le> consecutive_hits s \<Longrightarrow> 0 \<le> consecutive_hits (snd (step a s tk))"
  by (cases tk) (simp add: step_hits del: step.simps)

declare step.simps [simp del]


section \<open>Traces of the loop\<close>

lemma length_run [simp]: "length (run a s tks) = length tks"
  by (induction tks arbitrary: s) (simp_all add: Let_def)

lemma exec_append: "exec a s (xs @ ys) = exec a (exec a s xs) ys"
  by (induction xs arbitrary: s) simp_all

lemma exec_snoc: "exec a s (xs @ [tk]) = snd (step a (exec a s xs) tk)"
  by (simp add: exec_append)

text \<open>The \<open>i\<close>-th entry of the trace is the loop body run after the first \<open>i\<close> frames.\<close>

lemma run_nth:
  "i < length tks \<Longrightarrow> run a s tks ! i = step a (exec a s (take i tks)) (tks ! i)"
proof (induction tks arbitrary: s i)
  case Nil
  then show ?case by simp
next
  case (Cons tk tks)
  show ?case
  proof (cases i)
    case 0
    then show ?thesis by (simp add: Let_def)
  next
    case (Suc n)
    with Cons.prems have "n < length tks" by simp
    from Cons.IH [OF this] Suc show ?thesis by (simp add: Let_def)
  qed
qed

lemma exec_take_Suc:
  "i < length tks \<Longrightarrow> exec a s (take (Suc i) tks) = snd (run a s tks ! i)"
  by (simp add: take_Suc_conv_app_nth exec_snoc run_nth)

lemma run_Suc:
  "Suc j < length tks \<Longrightarrow> run a s tks ! Suc j = step a (snd (run a s tks ! j)) (tks ! Suc j)"
  by (simp add: run_nth [of "Suc j"] exec_take_Suc)

lemma exec_hits_nonneg:
  "0 \<le> consecutive_hits s \<Longrightarrow> 0 \<le> consecutive_hits (exec a s tks)"
  by (induction tks arbitrary: s) (simp_all add: step_hits_nonneg)

lemma run_hits_nonneg:
  assumes "0 \<le> consecutive_hits s" and "i < length tks"
  shows "0 \<le> consecutive_hits (snd (run a s tks ! i))"
  using assms by (simp add: run_nth step_hits_nonneg exec_hits_nonneg)

lemma fired_nth: "i < length tks \<Longrightarrow> fired a s tks ! i = fst (run a s tks ! i)"
  by (simp add: fired_def)

lemma hits_trace_nth:
  "i < length tks \<Longrightarrow> hits_trace a s tks ! i = consecutive_hits (snd (run a s tks ! i))"
  by (simp add: hits_trace_def)

lemma stable_trace_nth:
  "i < length tks \<Longrightarrow> stable_trace a s tks ! i = detected_stable (snd (run a s tks ! i))"
  by (simp add: stable_trace_def)

lemma hits_trace_Cons:
  "hits_trace a s ((p, t) # tks) =
     consecutive_hits (snd (step a s (p, t))) # hits_trace a (snd (step a s (p, t))) tks"
  by (simp add: hits_trace_def Let_def)

lemma fired_Cons:
  "fired a s ((p, t) # tks) = fst (step a s (p, t)) # fired a (snd (step a s (p, t))) tks"
  by (simp add: fired_def Let_def)

lemma hits_trace_Nil: "hits_trace a s [] = []"
  by (simp add: hits_trace_def)

lemma fired_Nil: "fired a s [] = []"
  by (simp add: fired_def)


section \<open>The accumulator\<close>

text \<open>
  Claim C1 says that \<^verbatim>\<open>consecutive_hits\<close> stays between 0 and \<^verbatim>\<open>args.frames\<close> and
  that a frame with a phone sets it to \<open>min (hits + 1) frames\<close>. Line 112 is a plain
  \<^verbatim>\<open>+= 1\<close>: with \<^verbatim>\<open>--frames 1\<close>, two frames with a phone leave the counter at 2,
  above the threshold.
\<close>

theorem hits_exceed_frames:
  "\<not> consecutive_hits (exec (args_with 1 0) init_state [(True, 0), (True, 1)])
       \<le> frames (args_with 1 0)"
  by (simp add: step.simps Let_def init_state_def args_with_def)

text \<open>
  Claim C1 as the code has it: after every frame of every run from the initial values the
  counter is at least 0; a frame with a phone sets it to \<open>hits + 1\<close>, with no upper
  limit, and a frame without one to \<open>max (hits - 1) 0\<close>.
\<close>

theorem hits_never_negative:
  assumes "i < length tks"
  shows "0 \<le> consecutive_hits (snd (run a init_state tks ! i)) \<and>
         consecutive_hits (snd (step a s (p, t))) =
           (if p then consecutive_hits s + 1 else max (consecutive_hits s - 1) 0)"
proof -
  have "0 \<le> consecutive_hits init_state" by (simp add: init_state_def)
  from run_hits_nonneg [OF this assms] show ?thesis
    by (simp add: step_hits max.commute)
qed

theorem hits_never_negative_witness:
  "(1::nat) < length [(True, 0), (False, 1 :: real)] \<and>
   0 \<le> consecutive_hits (snd (run (args_with 3 5) init_state [(True, 0), (False, 1)] ! 1)) \<and>
   consecutive_hits (snd (step (args_with 3 5) init_state (True, 7))) =
     (if True then consecutive_hits init_state + 1 else max (consecutive_hits init_state - 1) 0)"
  using hits_never_negative [of 1 "[(True, 0), (False, 1)]" "args_with 3 5" init_state True 7]
  by simp


section \<open>The first trigger\<close>

lemma untriggered_state:
  assumes "\<forall>j<n. \<not> fst (run a init_state tks ! j)" and "n \<le> length tks"
  shows "\<not> detected_stable (exec a init_state (take n tks)) \<and>
         last_trigger_time (exec a init_state (take n tks)) = 0"
  using assms
proof (induction n)
  case 0
  then show ?case by (simp add: init_state_def)
next
  case (Suc n)
  then have n: "n < length tks" and nf: "\<not> fst (run a init_state tks ! n)"
    and ih: "\<not> detected_stable (exec a init_state (take n tks))"
            "last_trigger_time (exec a init_state (take n tks)) = 0"
    by simp_all
  obtain p t where tk: "tks ! n = (p, t)" by (cases "tks ! n")
  from nf n tk have "\<not> fst (step a (exec a init_state (take n tks)) (p, t))"
    by (simp add: run_nth)
  with ih n tk show ?case
    by (simp add: exec_take_Suc run_nth step_stable step_last)
qed

text \<open>
  What line 118 does while no trigger has happened: \<^verbatim>\<open>last_trigger_time\<close> is still
  the \<open>0.0\<close> of line 74, so on a frame with the counter at or above the threshold the
  video opens exactly when the clock reading itself is at least the cooldown.
\<close>

lemma first_trigger_test:
  assumes "i < length tks" and "\<forall>j<i. \<not> fired a init_state tks ! j"
    and "frames a \<le> hits_trace a init_state tks ! i"
  shows "fired a init_state tks ! i = (cooldown a \<le> snd (tks ! i))"
proof -
  from assms(1,2) have "\<forall>j<i. \<not> fst (run a init_state tks ! j)"
    by (auto simp add: fired_nth)
  from untriggered_state [OF this] assms(1)
  have st: "\<not> detected_stable (exec a init_state (take i tks))"
    "last_trigger_time (exec a init_state (take i tks)) = 0"
    by simp_all
  obtain p t where tk: "tks ! i = (p, t)" by (cases "tks ! i")
  from assms(1,3) tk
  have "frames a \<le> consecutive_hits (snd (step a (exec a init_state (take i tks)) (p, t)))"
    by (simp add: hits_trace_nth run_nth)
  with st assms(1) tk show ?thesis
    by (simp add: fired_nth run_nth step_fire)
qed



section \<open>Reading the configuration\<close>

text \<open>
  Claim C3 says that a threshold \<^verbatim>\<open>frames <= 0\<close> or a \<^verbatim>\<open>cooldown < 0\<close> is
  rejected with a configuration error before any frame is processed. The script has no
  engine object: the configuration is what \<^verbatim>\<open>parse_args\<close> returns, and it returns
  \<^verbatim>\<open>--frames 0\<close> and \<^verbatim>\<open>--cooldown -1\<close> unchanged.
\<close>

theorem nonpositive_frames_and_negative_cooldown_accepted:
  "parse_args (cli_with 0 10) = Inr (args_with 0 10) \<and>
   parse_args (cli_with 6 (- 1)) = Inr (args_with 6 (- 1))"
  by (simp add: parse_args_def cli_with_def args_with_def)

lemma convert_Inl: "(convert d x = Inl e) = (x = Malformed)"
  by (cases x; cases e) simp_all

lemma convert_Inr: "x \<noteq> Malformed \<Longrightarrow> \<exists>v. convert d x = Inr v"
  by (cases x) simp_all

lemma parse_args_isl:
  "isl (parse_args c) =
      (cli_url c = None \<or> cli_camera c = Malformed \<or> cli_conf c = Malformed \<or>
       cli_frames c = Malformed \<or> cli_cooldown c = Malformed)"
proof (cases "cli_url c")
  case None
  then show ?thesis by (simp add: parse_args_def)
next
  case (Some u)
  show ?thesis
  proof (cases "convert 0 (cli_camera c)")
    case (Inl e)
    with Some show ?thesis by (simp add: parse_args_def convert_Inl)
  next
    case cam: (Inr cam)
    then have 1: "cli_camera c \<noteq> Malformed" by (cases "cli_camera c") simp_all
    show ?thesis
    proof (cases "convert (45 / 100) (cli_conf c)")
      case (Inl e)
      with Some cam show ?thesis by (simp add: parse_args_def convert_Inl)
    next
      case cf: (Inr cf)
      then have 2: "cli_conf c \<noteq> Malformed" by (cases "cli_conf c") simp_all
      show ?thesis
      proof (cases "convert 6 (cli_frames c)")
        case (Inl e)
        with Some cam cf show ?thesis by (simp add: parse_args_def convert_Inl)
      next
        case fr: (Inr fr)
        then have 3: "cli_frames c \<noteq> Malformed" by (cases "cli_frames c") simp_all
        show ?thesis
        proof (cases "convert 10 (cli_cooldown c)")
          case (Inl e)
          with Some cam cf fr show ?thesis by (simp add: parse_args_def convert_Inl)
        next
          case cd: (Inr cd)
          then have 4: "cli_cooldown c \<noteq> Malformed" by (cases "cli_cooldown c") simp_all
          from Some cam cf fr cd 1 2 3 4 show ?thesis by (simp add: parse_args_def)
        qed
      qed
    qed
  qed
qed

lemma parse_args_Given:
  assumes "cli_url c = Some u" and "cli_camera c \<noteq> Malformed" and "cli_conf c \<noteq> Malformed"
    and "cli_frames c = Given n" and "cli_cooldown c = Given k"
  shows "\<exists>a. parse_args c = Inr a \<and> frames a = n \<and> cooldown a = k"
proof -
  from convert_Inr [OF assms(2)] obtain cam where cam: "convert 0 (cli_camera c) = Inr cam"
    by blast
  from convert_Inr [OF assms(3)] obtain cf where cf: "convert (45 / 100) (cli_conf c) = Inr cf"
    by blast
  from assms(1,4,5) cam cf show ?thesis by (simp add: parse_args_def)
qed

text \<open>
  Claim C3 as the code has it: neither value is range-checked. With \<^verbatim>\<open>--url\<close> given
  and every typed option convertible, \<^verbatim>\<open>parse_args\<close> succeeds for every integer
  \<^verbatim>\<open>--frames\<close> and every \<^verbatim>\<open>--cooldown\<close> and hands them on as they are; it fails
  exactly when \<^verbatim>\<open>--url\<close> is missing or some typed option does not convert.
\<close>

theorem parse_args_has_no_range_check:
  "(cli_url c = Some u \<and> cli_camera c \<noteq> Malformed \<and> cli_conf c \<noteq> Malformed \<and>
    cli_frames c = Given n \<and> cli_cooldown c = Given k
      \<longrightarrow> (\<exists>a. parse_args c = Inr a \<and> frames a = n \<and> cooldown a = k)) \<and>
   (isl (parse_args c) =
      (cli_url c = None \<or> cli_camera c = Malformed \<or> cli_conf c = Malformed \<or>
       cli_frames c = Malformed \<or> cli_cooldown c = Malformed))"
  using parse_args_Given [of c u n k] parse_args_isl [of c] by blast

theorem parse_args_has_no_range_check_witness:
  "cli_url (cli_with (- 3) (- 1)) = Some ''u'' \<and>
   cli_camera (cli_with (- 3) (- 1)) \<noteq> Malformed \<and>
   cli_conf (cli_with (- 3) (- 1)) \<noteq> Malformed \<and>
   cli_frames (cli_with (- 3) (- 1)) = Given (- 3) \<and>
   cli_cooldown (cli_with (- 3) (- 1)) = Given (- 1) \<and>
   parse_args (cli_with (- 3) (- 1)) = Inr (args_with (- 3) (- 1)) \<and>
   frames (args_with (- 3) (- 1)) = - 3 \<and> cooldown (args_with (- 3) (- 1)) = - 1"
  using parse_args_has_no_range_check [of "cli_with (- 3) (- 1)" "''u''" "- 3" "- 1"]
  by (simp add: parse_args_def cli_with_def args_with_def)


section \<open>A trigger held back by the cooldown\<close>

lemma stable_present_run_silent:
  assumes "detected_stable s" and "0 \<le> consecutive_hits s" and "\<forall>tk\<in>set tks. fst tk"
    and "i < length tks"
  shows "\<not> fst (run a s tks ! i)"
  using assms
proof (induction tks arbitrary: s i)
  case Nil
  then show ?case by simp
next
  case (Cons tk tks)
  from Cons.prems obtain t where tk: "tk = (True, t)" by (cases tk) auto
  show ?case
  proof (cases i)
    case 0
    with Cons.prems tk show ?thesis by (simp add: Let_def step_fire)
  next
    case (Suc n)
    have "detected_stable (snd (step a s tk))" "0 \<le> consecutive_hits (snd (step a s tk))"
      using Cons.prems tk by (simp_all add: step_stable step_hits)
    from Cons.IH [OF this, of n] Cons.prems Suc show ?thesis by (simp add: Let_def)
  qed
qed

lemma pending_present_run:
  assumes "\<not> detected_stable s" and "0 \<le> consecutive_hits s"
    and "frames a \<le> consecutive_hits s" and "\<forall>tk\<in>set tks. fst tk" and "i < length tks"
  shows "fst (run a s tks ! i) =
           (ready a (last_trigger_time s) (tks ! i) \<and>
            (\<forall>j<i. \<not> ready a (last_trigger_time s) (tks ! j)))"
  using assms
proof (induction tks arbitrary: s i)
  case Nil
  then show ?case by simp
next
  case (Cons tk tks)
  from Cons.prems obtain t where tk: "tk = (True, t)" by (cases tk) auto
  let ?s' = "snd (step a s tk)"
  have hits': "consecutive_hits ?s' = consecutive_hits s + 1"
    using tk by (simp add: step_hits)
  have fire: "fst (step a s tk) = ready a (last_trigger_time s) tk"
    using Cons.prems tk hits' by (simp add: step_fire ready_def)
  show ?case
  proof (cases i)
    case 0
    with fire show ?thesis by (simp add: Let_def)
  next
    case (Suc n)
    with Cons.prems have n: "n < length tks" and pres: "\<forall>tk\<in>set tks. fst tk" by simp_all
    show ?thesis
    proof (cases "ready a (last_trigger_time s) tk")
      case True
      with fire tk hits' Cons.prems
      have "detected_stable ?s'" "0 \<le> consecutive_hits ?s'"
        by (simp_all add: step_stable)
      from stable_present_run_silent [OF this pres n]
      have "\<not> fst (run a ?s' tks ! n)" .
      with True Suc show ?thesis by (auto simp add: Let_def)
    next
      case False
      with fire tk hits' Cons.prems
      have st: "\<not> detected_stable ?s'" "0 \<le> consecutive_hits ?s'"
        "frames a \<le> consecutive_hits ?s'"
        and l: "last_trigger_time ?s' = last_trigger_time s"
        by (simp_all add: step_stable step_last)
      from Cons.IH [OF st pres n] l False Suc show ?thesis
        by (simp add: Let_def All_less_Suc2)
    qed
  qed
qed

text \<open>
  Claim C4: when a frame brings the counter to the threshold while
  \<^verbatim>\<open>detected_stable\<close> is false and the cooldown has not elapsed, nothing fires,
  \<^verbatim>\<open>detected_stable\<close> stays false and \<^verbatim>\<open>last_trigger_time\<close> is unchanged; and over
  any following frames that all show a phone, the video opens on exactly one frame, the
  first whose clock reading passes the cooldown test (on none, if no reading passes it).
  The counter is taken to be non-negative before the frame, as it is in every run.
\<close>

theorem pending_fire:
  assumes "0 \<le> consecutive_hits s" and "\<not> detected_stable s"
    and "frames a \<le> consecutive_hits (snd (step a s (p, t)))"
    and "t - last_trigger_time s < cooldown a"
    and "\<forall>tk\<in>set tks. fst tk"
  shows "\<not> fst (step a s (p, t)) \<and>
         \<not> detected_stable (snd (step a s (p, t))) \<and>
         last_trigger_time (snd (step a s (p, t))) = last_trigger_time s \<and>
         (\<forall>i<length tks.
            fired a (snd (step a s (p, t))) tks ! i =
              (ready a (last_trigger_time s) (tks ! i) \<and>
               (\<forall>j<i. \<not> ready a (last_trigger_time s) (tks ! j))))"
proof -
  let ?s' = "snd (step a s (p, t))"
  from assms have nf: "\<not> fst (step a s (p, t))" by (simp add: step_fire)
  with assms have ns: "\<not> detected_stable ?s'" and l: "last_trigger_time ?s' = last_trigger_time s"
    by (simp_all add: step_stable step_last)
  from assms have nn: "0 \<le> consecutive_hits ?s'" by (simp add: step_hits_nonneg)
  have "fired a ?s' tks ! i =
          (ready a (last_trigger_time s) (tks ! i) \<and>
           (\<forall>j<i. \<not> ready a (last_trigger_time s) (tks ! j)))" if "i < length tks" for i
    using pending_present_run [OF ns nn assms(3) assms(5) that] l that
    by (simp add: fired_nth)
  with nf ns l show ?thesis by blast
qed

theorem pending_fire_witness:
  "0 \<le> consecutive_hits \<lparr>consecutive_hits = 2, detected_stable = False, last_trigger_time = 0\<rparr> \<and>
   \<not> detected_stable \<lparr>consecutive_hits = 2, detected_stable = False, last_trigger_time = 0\<rparr> \<and>
   frames (args_with 3 5) \<le> consecutive_hits (snd (step (args_with 3 5)
      \<lparr>consecutive_hits = 2, detected_stable = False, last_trigger_time = 0\<rparr> (True, 2))) \<and>
   2 - last_trigger_time \<lparr>consecutive_hits = 2, detected_stable = False, last_trigger_time = 0\<rparr>
      < cooldown (args_with 3 5) \<and>
   list_all fst [(True, 3), (True, 5), (True, 6 :: real)] \<and>
   \<not> fst (step (args_with 3 5)
      \<lparr>consecutive_hits = 2, detected_stable = False, last_trigger_time = 0\<rparr> (True, 2)) \<and>
   fired (args_with 3 5) (snd (step (args_with 3 5)
      \<lparr>consecutive_hits = 2, detected_stable = False, last_trigger_time = 0\<rparr> (True, 2)))
      [(True, 3), (True, 5), (True, 6)] = [False, True, False]"
  using pending_fire [of "\<lparr>consecutive_hits = 2, detected_stable = False, last_trigger_time = 0\<rparr>"
      "args_with 3 5" True 2 "[(True, 3), (True, 5), (True, 6)]"]
  by (simp add: fired_def step.simps Let_def args_with_def)


section \<open>Frames without a trigger\<close>

text \<open>
  Claim C8: a frame on which the video is not opened leaves \<^verbatim>\<open>last_trigger_time\<close>
  as it was, and \<^verbatim>\<open>detected_stable\<close> afterwards is true exactly when it was true
  before and the counter is not 0; so the flag changes only from true to false, and only
  when the counter ends the frame at 0.
\<close>

theorem silent_tick_frame:
  assumes "\<not> fst (step a s tk)"
  shows "last_trigger_time (snd (step a s tk)) = last_trigger_time s \<and>
         detected_stable (snd (step a s tk)) =
           (detected_stable s \<and> consecutive_hits (snd (step a s tk)) \<noteq> 0) \<and>
         (detected_stable (snd (step a s tk)) \<noteq> detected_stable s \<longrightarrow>
            detected_stable s \<and> \<not> detected_stable (snd (step a s tk)) \<and>
            consecutive_hits (snd (step a s tk)) = 0)"
  using assms by (cases tk) (auto simp add: step_last step_stable)

theorem silent_tick_frame_witness:
  "\<not> fst (step (args_with 3 5)
        \<lparr>consecutive_hits = 1, detected_stable = True, last_trigger_time = 4\<rparr> (False, 6)) \<and>
   last_trigger_time (snd (step (args_with 3 5)
        \<lparr>consecutive_hits = 1, detected_stable = True, last_trigger_time = 4\<rparr> (False, 6))) = 4 \<and>
   \<not> detected_stable (snd (step (args_with 3 5)
        \<lparr>consecutive_hits = 1, detected_stable = True, last_trigger_time = 4\<rparr> (False, 6))) \<and>
   consecutive_hits (snd (step (args_with 3 5)
        \<lparr>consecutive_hits = 1, detected_stable = True, last_trigger_time = 4\<rparr> (False, 6))) = 0"
  using silent_tick_frame [of "args_with 3 5"
        "\<lparr>consecutive_hits = 1, detected_stable = True, last_trigger_time = 4\<rparr>" "(False, 6)"]
  by (simp add: step.simps Let_def args_with_def)


section \<open>Flicker\<close>

text \<open>
  With \<^verbatim>\<open>--frames 4\<close>, from a counter of 0 with \<^verbatim>\<open>detected_stable\<close> false, the
  frames phone, phone, none, phone, phone, phone give the counter values 1, 2, 1, 2, 3, 4
  whatever the clock and the cooldown, and nothing fires on the first five. The sixth
  opens the video when the test of line 118 passes there.
\<close>

lemma flicker_when_cooldown_passes:
  assumes "frames a = 4" and "consecutive_hits s = 0" and "\<not> detected_stable s"
    and "cooldown a \<le> t6 - last_trigger_time s"
  shows "hits_trace a s [(True, t1), (True, t2), (False, t3), (True, t4), (True, t5), (True, t6)]
           = [1, 2, 1, 2, 3, 4] \<and>
         fired a s [(True, t1), (True, t2), (False, t3), (True, t4), (True, t5), (True, t6)]
           = [False, False, False, False, False, True]"
  using assms
  by (simp add: hits_trace_Cons hits_trace_Nil fired_Cons fired_Nil
        step_hits step_fire step_stable step_last)



section \<open>A threshold of zero or less\<close>

text \<open>
  Claim C10: with \<^verbatim>\<open>args.frames <= 0\<close> the test \<^verbatim>\<open>consecutive_hits >= args.frames\<close>
  holds on the first frame whether or not it shows a phone, so the video opens on that
  frame exactly when the cooldown test passes.
\<close>

theorem nonpositive_frames_trigger_on_first_tick:
  assumes "frames a \<le> 0"
  shows "frames a \<le> hits_trace a init_state ((p, t) # tks) ! 0 \<and>
         fired a init_state ((p, t) # tks) ! 0 = (cooldown a \<le> t - last_trigger_time init_state)"
  using assms
  by (auto simp add: fired_def hits_trace_def Let_def step_fire step_hits init_state_def)

theorem nonpositive_frames_trigger_on_first_tick_witness:
  "frames (args_with 0 10) \<le> 0 \<and>
   frames (args_with 0 10) \<le> hits_trace (args_with 0 10) init_state [(False, 12)] ! 0 \<and>
   fired (args_with 0 10) init_state [(False, 12)] ! 0 \<and>
   cooldown (args_with 0 10) \<le> 12 - last_trigger_time init_state"
  using nonpositive_frames_trigger_on_first_tick [of "args_with 0 10" False 12 "[]"]
  by (simp add: args_with_def init_state_def)


section \<open>One trigger for each episode\<close>

lemma stable_persists:
  assumes "detected_stable (snd (run a s tks ! i))" and "i \<le> j" and "j < length tks"
    and "\<forall>k. i < k \<and> k \<le> j \<longrightarrow> consecutive_hits (snd (run a s tks ! k)) \<noteq> 0"
  shows "detected_stable (snd (run a s tks ! j))"
  using assms(2-4)
proof (induction j)
  case 0
  with assms(1) show ?case by simp
next
  case (Suc j)
  show ?case
  proof (cases "i = Suc j")
    case True
    with assms(1) show ?thesis by simp
  next
    case False
    with Suc.prems have "i \<le> j" "j < length tks"
      "\<forall>k. i < k \<and> k \<le> j \<longrightarrow> consecutive_hits (snd (run a s tks ! k)) \<noteq> 0"
      by simp_all
    then have st: "detected_stable (snd (run a s tks ! j))" by (rule Suc.IH)
    from Suc.prems \<open>i \<le> j\<close> have nz: "consecutive_hits (snd (run a s tks ! Suc j)) \<noteq> 0"
      by simp
    obtain p t where tk: "tks ! Suc j = (p, t)" by (cases "tks ! Suc j")
    from st nz Suc.prems(2) tk show ?thesis
      by (simp add: run_Suc step_stable)
  qed
qed

text \<open>
  Claim C5: in any run, if the video is opened on frame \<open>i\<close> and again on a later frame
  \<open>j\<close>, then in between the counter has been exactly 0 at the end of some frame \<open>k\<close>
  with \<open>i \<le> k < j\<close>, and at frame \<open>j\<close> it is back at or above the threshold. With a
  positive threshold the counter is not 0 at frame \<open>i\<close> itself, so \<open>k\<close> is strictly
  later than \<open>i\<close>.
\<close>

theorem one_trigger_per_episode:
  assumes "i < j" and "j < length tks" and "fired a s tks ! i" and "fired a s tks ! j"
  shows "(\<exists>k. i \<le> k \<and> k < j \<and> hits_trace a s tks ! k = 0 \<and> (0 < frames a \<longrightarrow> i < k)) \<and>
         frames a \<le> hits_trace a s tks ! j"
proof -
  from assms have il: "i < length tks" by simp
  obtain p t where tki: "tks ! i = (p, t)" by (cases "tks ! i")
  obtain j' where j': "j = Suc j'" using assms(1) by (cases j) simp_all
  obtain q u where tkj: "tks ! j = (q, u)" by (cases "tks ! j")
  from assms(3) il tki
  have fi: "fst (step a (exec a s (take i tks)) (p, t))"
    by (simp add: fired_nth run_nth)
  then have hi: "frames a \<le> consecutive_hits (snd (run a s tks ! i))"
    using il tki by (simp add: run_nth step_fire)
  from assms(2,4) j' tkj
  have fj: "fst (step a (snd (run a s tks ! j')) (q, u))"
    by (simp add: fired_nth run_Suc)
  then have nsj: "\<not> detected_stable (snd (run a s tks ! j'))"
    and hj: "frames a \<le> consecutive_hits (snd (run a s tks ! j))"
    using assms(2) j' tkj by (simp_all add: step_fire run_Suc)
  have ex: "\<exists>k. i \<le> k \<and> k < j \<and> consecutive_hits (snd (run a s tks ! k)) = 0"
  proof (rule ccontr)
    assume "\<not> ?thesis"
    then have nz: "\<forall>k. i \<le> k \<and> k < j \<longrightarrow> consecutive_hits (snd (run a s tks ! k)) \<noteq> 0"
      by blast
    with assms(1) have "consecutive_hits (snd (run a s tks ! i)) \<noteq> 0" by simp
    with fi il tki have sti: "detected_stable (snd (run a s tks ! i))"
      by (simp add: run_nth step_stable)
    from nz j' have nz': "\<forall>k. i < k \<and> k \<le> j' \<longrightarrow> consecutive_hits (snd (run a s tks ! k)) \<noteq> 0"
      by simp
    from assms(1,2) j' have "i \<le> j'" "j' < length tks" by simp_all
    from stable_persists [OF sti this nz'] nsj show False by simp
  qed
  then obtain k where k: "i \<le> k" "k < j" "consecutive_hits (snd (run a s tks ! k)) = 0"
    by blast
  with assms(2) have hk: "hits_trace a s tks ! k = 0" by (simp add: hits_trace_nth)
  have "i < k" if "0 < frames a"
  proof -
    from that hi k(3) have "k \<noteq> i" by auto
    with k(1) show ?thesis by simp
  qed
  with k hk hj assms(2) show ?thesis by (auto simp add: hits_trace_nth)
qed

theorem one_trigger_per_episode_witness:
  "(0::nat) < 2 \<and> 2 < length [(True, 0), (False, 1), (True, 2 :: real)] \<and>
   fired (args_with 1 0) init_state [(True, 0), (False, 1), (True, 2)] ! 0 \<and>
   fired (args_with 1 0) init_state [(True, 0), (False, 1), (True, 2)] ! 2 \<and>
   0 < frames (args_with 1 0) \<and>
   hits_trace (args_with 1 0) init_state [(True, 0), (False, 1), (True, 2)] ! 1 = 0 \<and>
   frames (args_with 1 0) \<le> hits_trace (args_with 1 0) init_state [(True, 0), (False, 1), (True, 2)] ! 2"
  using one_trigger_per_episode [of 0 2 "[(True, 0), (False, 1), (True, 2)]" "args_with 1 0" init_state]
  by (simp add: fired_def hits_trace_def step.simps Let_def init_state_def args_with_def)


section \<open>The flag \<open>detected_stable\<close>\<close>

lemma stable_has_origin:
  assumes "j < length tks" and "detected_stable (snd (run a init_state tks ! j))"
  shows "\<exists>i\<le>j. fst (run a init_state tks ! i) \<and>
           \<not> detected_stable (exec a init_state (take i tks)) \<and>
           frames a \<le> consecutive_hits (snd (run a init_state tks ! i)) \<and>
           (\<forall>k. i \<le> k \<and> k \<le> j \<longrightarrow> detected_stable (snd (run a init_state tks ! k)))"
  using assms
proof (induction j)
  case 0
  obtain p t where tk: "tks ! 0 = (p, t)" by (cases "tks ! 0")
  from 0 tk have st: "detected_stable (snd (step a init_state (p, t)))"
    by (simp add: run_nth)
  then have f: "fst (step a init_state (p, t))"
    by (simp add: step_stable init_state_def)
  then have "frames a \<le> consecutive_hits (snd (step a init_state (p, t)))"
    by (simp add: step_fire)
  with 0 tk f st show ?case by (simp add: run_nth init_state_def)
next
  case (Suc j)
  let ?r = "run a init_state tks"
  obtain p t where tk: "tks ! Suc j = (p, t)" by (cases "tks ! Suc j")
  from Suc.prems tk have st: "detected_stable (snd (step a (snd (?r ! j)) (p, t)))"
    by (simp add: run_Suc)
  show ?case
  proof (cases "fst (?r ! Suc j)")
    case True
    with Suc.prems tk
    have "\<not> detected_stable (exec a init_state (take (Suc j) tks))"
      "frames a \<le> consecutive_hits (snd (?r ! Suc j))"
      by (simp_all add: run_nth step_fire)
    with True Suc.prems(2) show ?thesis
      by (intro exI [of _ "Suc j"]) auto
  next
    case False
    with Suc.prems(1) tk st have "detected_stable (snd (?r ! j))"
      by (simp add: run_Suc step_stable)
    with Suc.IH Suc.prems(1) obtain i where i: "i \<le> j" "fst (?r ! i)"
      "\<not> detected_stable (exec a init_state (take i tks))"
      "frames a \<le> consecutive_hits (snd (?r ! i))"
      "\<forall>k. i \<le> k \<and> k \<le> j \<longrightarrow> detected_stable (snd (?r ! k))"
      by auto
    have "\<forall>k. i \<le> k \<and> k \<le> Suc j \<longrightarrow> detected_stable (snd (?r ! k))"
      using i(5) Suc.prems(2) by (auto simp add: le_Suc_eq)
    with i show ?thesis by (intro exI [of _ i]) simp
  qed
qed

text \<open>
  Claim C6, for every run from the initial values. If \<^verbatim>\<open>detected_stable\<close> is true
  after frame \<open>j\<close>, then some frame \<open>i \<le> j\<close> set it: the flag was false before frame
  \<open>i\<close>, the video was opened on it with the counter at or above the threshold, and the
  flag has been true after every frame from \<open>i\<close> to \<open>j\<close>. If the flag is true before
  frame \<open>j\<close> and false after it, the counter is exactly 0 after frame \<open>j\<close>.
\<close>

theorem stable_flag_invariant:
  assumes "j < length tks"
  shows "(stable_trace a init_state tks ! j \<longrightarrow>
            (\<exists>i\<le>j. fired a init_state tks ! i \<and>
               \<not> detected_stable (exec a init_state (take i tks)) \<and>
               frames a \<le> hits_trace a init_state tks ! i \<and>
               (\<forall>k. i \<le> k \<and> k \<le> j \<longrightarrow> stable_trace a init_state tks ! k))) \<and>
         (detected_stable (exec a init_state (take j tks)) \<and>
          \<not> stable_trace a init_state tks ! j \<longrightarrow> hits_trace a init_state tks ! j = 0)"
proof (intro conjI impI)
  assume "stable_trace a init_state tks ! j"
  with assms have "detected_stable (snd (run a init_state tks ! j))"
    by (simp add: stable_trace_nth)
  from stable_has_origin [OF assms this] obtain i where i: "i \<le> j"
    "fst (run a init_state tks ! i)"
    "\<not> detected_stable (exec a init_state (take i tks))"
    "frames a \<le> consecutive_hits (snd (run a init_state tks ! i))"
    "\<forall>k. i \<le> k \<and> k \<le> j \<longrightarrow> detected_stable (snd (run a init_state tks ! k))"
    by blast
  from i(1) assms have il: "i < length tks" by simp
  have "\<forall>k. i \<le> k \<and> k \<le> j \<longrightarrow> stable_trace a init_state tks ! k"
    using i(5) assms by (simp add: stable_trace_nth)
  with i il show "\<exists>i\<le>j. fired a init_state tks ! i \<and>
               \<not> detected_stable (exec a init_state (take i tks)) \<and>
               frames a \<le> hits_trace a init_state tks ! i \<and>
               (\<forall>k. i \<le> k \<and> k \<le> j \<longrightarrow> stable_trace a init_state tks ! k)"
    by (intro exI [of _ i]) (simp add: fired_nth hits_trace_nth)
next
  assume h: "detected_stable (exec a init_state (take j tks)) \<and>
          \<not> stable_trace a init_state tks ! j"
  obtain p t where tk: "tks ! j = (p, t)" by (cases "tks ! j")
  from h assms tk show "hits_trace a init_state tks ! j = 0"
    by (auto simp add: stable_trace_nth hits_trace_nth run_nth step_stable)
qed

theorem stable_flag_invariant_witness:
  "(2::nat) < length [(True, 0), (True, 1), (False, 2), (False, 3 :: real)] \<and>
   (3::nat) < length [(True, 0), (True, 1), (False, 2), (False, 3 :: real)] \<and>
   stable_trace (args_with 2 0) init_state [(True, 0), (True, 1), (False, 2), (False, 3)] ! 2 \<and>
   fired (args_with 2 0) init_state [(True, 0), (True, 1), (False, 2), (False, 3)] ! 1 \<and>
   frames (args_with 2 0)
     \<le> hits_trace (args_with 2 0) init_state [(True, 0), (True, 1), (False, 2), (False, 3)] ! 1 \<and>
   detected_stable (exec (args_with 2 0) init_state
       (take 3 [(True, 0), (True, 1), (False, 2), (False, 3)])) \<and>
   \<not> stable_trace (args_with 2 0) init_state [(True, 0), (True, 1), (False, 2), (False, 3)] ! 3 \<and>
   hits_trace (args_with 2 0) init_state [(True, 0), (True, 1), (False, 2), (False, 3)] ! 3 = 0"
  using stable_flag_invariant [of 2 "[(True, 0), (True, 1), (False, 2), (False, 3)]" "args_with 2 0"]
    stable_flag_invariant [of 3 "[(True, 0), (True, 1), (False, 2), (False, 3)]" "args_with 2 0"]
  by (simp add: fired_def hits_trace_def stable_trace_def step.simps Let_def init_state_def
        args_with_def numeral_3_eq_3)


section \<open>Accumulation without a cap\<close>

lemma present_run_hits:
  "\<forall>tk\<in>set ps. fst tk \<Longrightarrow>
     consecutive_hits (exec a s ps) = consecutive_hits s + int (length ps)"
proof (induction ps arbitrary: s)
  case Nil
  then show ?case by simp
next
  case (Cons tk ps)
  then obtain t where "tk = (True, t)" by (cases tk) auto
  with Cons show ?case by (simp add: step_hits)
qed

lemma absent_run_hits:
  "0 \<le> consecutive_hits s \<Longrightarrow> \<forall>tk\<in>set qs. \<not> fst tk \<Longrightarrow>
     consecutive_hits (exec a s qs) = max (consecutive_hits s - int (length qs)) 0"
proof (induction qs arbitrary: s)
  case Nil
  then show ?case by simp
next
  case (Cons tk qs)
  then obtain t where tk: "tk = (False, t)" by (cases tk) auto
  have "0 \<le> consecutive_hits (snd (step a s tk))"
    using Cons.prems(1) by (rule step_hits_nonneg)
  with Cons.IH [of "snd (step a s tk)"] Cons.prems tk show ?case
    by (simp add: step_hits max_def)
qed

lemma absent_run_keeps_stable:
  "detected_stable s \<Longrightarrow> int (length qs) < consecutive_hits s \<Longrightarrow>
     \<forall>tk\<in>set qs. \<not> fst tk \<Longrightarrow> detected_stable (exec a s qs)"
proof (induction qs arbitrary: s)
  case Nil
  then show ?case by simp
next
  case (Cons tk qs)
  then obtain t where tk: "tk = (False, t)" by (cases tk) auto
  from Cons.prems tk have h: "consecutive_hits (snd (step a s tk)) = consecutive_hits s - 1"
    by (simp add: step_hits)
  with Cons.prems tk have "detected_stable (snd (step a s tk))"
    "int (length qs) < consecutive_hits (snd (step a s tk))"
    by (simp_all add: step_stable)
  with Cons.IH [of "snd (step a s tk)"] Cons.prems show ?case by simp
qed

text \<open>
  Claim C9: from a counter of 0, \<open>k\<close> frames in a row with a phone leave the counter
  at exactly \<open>k\<close>, whatever the threshold. Frames without a phone that follow take it
  down one at a time, to \<open>max (k - m) 0\<close> after \<open>m\<close> of them, and a flag that was set
  stays set while fewer than \<open>k\<close> of them have passed.
\<close>

theorem unbounded_accumulation:
  assumes "consecutive_hits s = 0" and "\<forall>tk\<in>set ps. fst tk" and "\<forall>tk\<in>set qs. \<not> fst tk"
  shows "consecutive_hits (exec a s ps) = int (length ps) \<and>
         consecutive_hits (exec a s (ps @ qs)) = max (int (length ps) - int (length qs)) 0 \<and>
         (detected_stable (exec a s ps) \<and> length qs < length ps
            \<longrightarrow> detected_stable (exec a s (ps @ qs)))"
proof -
  have 1: "consecutive_hits (exec a s ps) = int (length ps)"
    using present_run_hits [OF assms(2), of a s] assms(1) by simp
  then have "0 \<le> consecutive_hits (exec a s ps)" by simp
  from absent_run_hits [OF this assms(3)] 1
  have 2: "consecutive_hits (exec a s (ps @ qs)) = max (int (length ps) - int (length qs)) 0"
    by (simp add: exec_append)
  have 3: "detected_stable (exec a s (ps @ qs))"
    if "detected_stable (exec a s ps)" "length qs < length ps"
    using absent_run_keeps_stable [OF that(1) _ assms(3)] that(2) 1
    by (simp add: exec_append)
  from 1 2 3 show ?thesis by blast
qed

theorem unbounded_accumulation_witness:
  "consecutive_hits init_state = 0 \<and>
   list_all fst [(True, 0), (True, 1), (True, 2 :: real)] \<and>
   list_all (\<lambda>tk. \<not> fst tk) [(False, 3), (False, 4 :: real)] \<and>
   consecutive_hits (exec (args_with 2 0) init_state [(True, 0), (True, 1), (True, 2)]) = 3 \<and>
   frames (args_with 2 0) < 3 \<and>
   consecutive_hits (exec (args_with 2 0) init_state
       ([(True, 0), (True, 1), (True, 2)] @ [(False, 3), (False, 4)])) = 1 \<and>
   detected_stable (exec (args_with 2 0) init_state [(True, 0), (True, 1), (True, 2)]) \<and>
   length [(False, 3), (False, 4 :: real)] < length [(True, 0), (True, 1), (True, 2 :: real)] \<and>
   detected_stable (exec (args_with 2 0) init_state
       ([(True, 0), (True, 1), (True, 2)] @ [(False, 3), (False, 4)]))"
  using unbounded_accumulation [of init_state "[(True, 0), (True, 1), (True, 2)]"
      "[(False, 3), (False, 4)]" "args_with 2 0"]
  by (simp add: step.simps Let_def init_state_def args_with_def)

end
